theory Spec2Isabelle
  imports Main "HOL-Library.Sublist"
begin

section \<open>SDK objects as the file panel sees them\<close>

text \<open>
  \<^verbatim>\<open>FilePanel.js\<close> is a React component over objects of the messaging SDK. The
  component's own methods are embedded below; the SDK objects they call are taken as
  parameters (an environment of result functions), and every call on a collaborator
  is recorded, in program order, in a list of calls.
\<close>

type_synonym room_id = string
type_synonym user_id = string
type_synonym filter_id = nat

text \<open>Objects of the SDK that the component only passes around: references.\<close>

datatype room = Room room_id
datatype timeline_set = TimelineSet nat
datatype timeline = EventTimeline nat

text \<open>A thrown value or the reason of a rejected promise.\<close>

datatype error = Error string

text \<open>The JSON literal handed to \<^verbatim>\<open>filter.setDefinition\<close>.\<close>

datatype json = JBool bool | JString string | JArray "json list" | JObject "(string \<times> json) list"

text \<open>
  \<^verbatim>\<open>Matrix.Filter\<close>: constructed from a user id, given a definition by
  \<^verbatim>\<open>setDefinition\<close>, and a \<^verbatim>\<open>filterId\<close> by assignment.
\<close>

record matrix_filter =
  filter_userId :: user_id
  filter_definition :: "json option"
  filterId :: "filter_id option"

definition new_Filter :: "user_id \<Rightarrow> matrix_filter" where
  "new_Filter uid = \<lparr>filter_userId = uid, filter_definition = None, filterId = None\<rparr>"

definition setDefinition :: "matrix_filter \<Rightarrow> json \<Rightarrow> matrix_filter" where
  "setDefinition flt d = flt\<lparr>filter_definition := Some d\<rparr>"

text \<open>
  \<^verbatim>\<open>MatrixClientPeg.get()\<close>: the session. \<^verbatim>\<open>getOrCreateFilter\<close> returns a
  promise, which may reject.
\<close>

record matrix_client =
  credentials_userId :: user_id
  isGuest :: bool
  getRoom :: "room_id \<Rightarrow> room option"
  isRoomEncrypted :: "room_id \<Rightarrow> bool"
  getOrCreateFilter :: "string \<Rightarrow> matrix_filter \<Rightarrow> error + filter_id"

text \<open>
  \<^verbatim>\<open>EventIndexPeg.get()\<close> is the local search index, or null. Its
  \<^verbatim>\<open>populateFileTimeline\<close> returns a promise, which may reject. (Its
  \<^verbatim>\<open>paginateTimelineWindow\<close> is only ever called and returned: see the promises
  of a pagination request below.)
\<close>

record event_index =
  populateFileTimeline :: "timeline_set \<Rightarrow> timeline \<Rightarrow> room \<Rightarrow> nat \<Rightarrow> error + unit"

record env =
  MatrixClientPeg_get :: matrix_client
  EventIndexPeg_get :: "event_index option"
  getOrCreateFilteredTimelineSet :: "room \<Rightarrow> matrix_filter \<Rightarrow> error + timeline_set"
  getLiveTimeline :: "timeline_set \<Rightarrow> timeline"

text \<open>Calls on collaborators, with their arguments at the time of the call.\<close>

datatype call =
    Call_getRoom room_id
  | Call_isRoomEncrypted room_id
  | Call_getOrCreateFilter string matrix_filter
  | Call_getOrCreateFilteredTimelineSet room matrix_filter
  | Call_getLiveTimeline timeline_set
  | Call_populateFileTimeline timeline_set timeline room nat
  | Call_console_error string "error option"
  | Call_setState timeline_set

section \<open>The component\<close>

text \<open>
  \<^verbatim>\<open>this.props.roomId\<close>, \<^verbatim>\<open>this.state.timelineSet\<close> and the instance field
  \<^verbatim>\<open>this.noRoom\<close>. The field is undefined until \<^verbatim>\<open>updateTimelineSet\<close> assigns
  it and is only ever read as a condition, where undefined counts as false.
\<close>

record props =
  roomId :: room_id

record file_panel =
  timelineSet :: "timeline_set option"
  noRoom :: bool

definition getInitialState :: file_panel where
  "getInitialState = \<lparr>timelineSet = None, noRoom = False\<rparr>"

definition file_filter_definition :: json where
  "file_filter_definition =
     JObject [(''room'',
       JObject [(''timeline'',
         JObject [(''contains_url'', JBool True),
                  (''types'', JArray [JString ''m.room.message''])])])]"

text \<open>\<^verbatim>\<open>fetchFileEventsServer(room)\<close>: the result, or the error thrown, and the calls made.\<close>

definition fetchFileEventsServer :: "env \<Rightarrow> room \<Rightarrow> (error + timeline_set) \<times> call list" where
  "fetchFileEventsServer e room =
     (let client = MatrixClientPeg_get e;
          flt = setDefinition (new_Filter (credentials_userId client)) file_filter_definition;
          name = ''FILTER_FILES_'' @ credentials_userId client
      in case getOrCreateFilter client name flt of
           Inl err \<Rightarrow> (Inl err, [Call_getOrCreateFilter name flt])
         | Inr fid \<Rightarrow>
             (let flt' = flt\<lparr>filterId := Some fid\<rparr>
              in (getOrCreateFilteredTimelineSet e room flt',
                  [Call_getOrCreateFilter name flt,
                   Call_getOrCreateFilteredTimelineSet room flt'])))"

definition no_room_message :: string where
  "no_room_message = ''Failed to add filtered timelineSet for FilePanel as no room!''"

definition failed_message :: string where
  "failed_message = ''Failed to get or create file panel filter''"

text \<open>
  \<^verbatim>\<open>updateTimelineSet(roomId)\<close>: the component afterwards and the calls made. The
  \<^verbatim>\<open>try\<close> block covers everything from \<^verbatim>\<open>fetchFileEventsServer\<close> to
  \<^verbatim>\<open>setState\<close>; the \<^verbatim>\<open>catch\<close> logs and returns.
\<close>

definition updateTimelineSet :: "env \<Rightarrow> file_panel \<Rightarrow> room_id \<Rightarrow> file_panel \<times> call list" where
  "updateTimelineSet e this rid =
     (let client = MatrixClientPeg_get e;
          room = getRoom client rid;
          eventIndex = EventIndexPeg_get e;
          this1 = this\<lparr>noRoom := (room = None)\<rparr>
      in case room of
           None \<Rightarrow> (this1, [Call_getRoom rid, Call_console_error no_room_message None])
         | Some r \<Rightarrow>
            (case fetchFileEventsServer e r of
               (Inl err, tr) \<Rightarrow>
                 (this1, Call_getRoom rid # tr @ [Call_console_error failed_message (Some err)])
             | (Inr ts, tr) \<Rightarrow>
                 (case (isRoomEncrypted client rid, eventIndex) of
                    (True, Some idx) \<Rightarrow>
                      (let tl = getLiveTimeline e ts;
                           tr' = Call_getRoom rid # tr @
                                 [Call_isRoomEncrypted rid, Call_getLiveTimeline ts,
                                  Call_populateFileTimeline ts tl r 1]
                       in case populateFileTimeline idx ts tl r 1 of
                            Inl err \<Rightarrow> (this1, tr' @ [Call_console_error failed_message (Some err)])
                          | Inr u \<Rightarrow> (this1\<lparr>timelineSet := Some ts\<rparr>, tr' @ [Call_setState ts]))
                  | _ \<Rightarrow>
                      (this1\<lparr>timelineSet := Some ts\<rparr>,
                       Call_getRoom rid # tr @ [Call_isRoomEncrypted rid, Call_setState ts]))))"

text \<open>The errors logged and the states set, read off a list of calls.\<close>

fun console_errors :: "call list \<Rightarrow> (string \<times> error option) list" where
  "console_errors [] = []"
| "console_errors (Call_console_error msg err # cs) = (msg, err) # console_errors cs"
| "console_errors (c # cs) = console_errors cs"

fun set_states :: "call list \<Rightarrow> timeline_set list" where
  "set_states [] = []"
| "set_states (Call_setState ts # cs) = ts # set_states cs"
| "set_states (c # cs) = set_states cs"

text \<open>
  What \<^verbatim>\<open>render\<close> returns: the element tree, with class names and texts as in the
  source. The text of the guest message is the untranslated template.
\<close>

record timeline_panel_props =
  tp_key :: string
  tp_manageReadReceipts :: bool
  tp_manageReadMarkers :: bool
  tp_timelineSet :: timeline_set
  tp_showUrlPreview :: bool
  tp_tileShape :: string
  tp_empty :: string

datatype element =
    Div string "element list"
  | Text string
  | TimelinePanel timeline_panel_props
  | Spinner

definition guest_view :: element where
  "guest_view =
     Div ''mx_FilePanel mx_RoomView_messageListWrapper''
       [Div ''mx_RoomView_empty'' [Text ''You must <a>register</a> to use this functionality'']]"

definition not_joined_view :: element where
  "not_joined_view =
     Div ''mx_FilePanel mx_RoomView_messageListWrapper''
       [Div ''mx_RoomView_empty'' [Text ''You must join the room to see its files'']]"

definition feed_view :: "room_id \<Rightarrow> timeline_set \<Rightarrow> element" where
  "feed_view rid ts =
     Div ''mx_FilePanel''
       [TimelinePanel \<lparr>tp_key = ''filepanel_'' @ rid,
                       tp_manageReadReceipts = False,
                       tp_manageReadMarkers = False,
                       tp_timelineSet = ts,
                       tp_showUrlPreview = False,
                       tp_tileShape = ''file_grid'',
                       tp_empty = ''There are no visible files in this room''\<rparr>]"

definition loading_view :: element where
  "loading_view = Div ''mx_FilePanel'' [Spinner]"

definition render :: "env \<Rightarrow> file_panel \<Rightarrow> props \<Rightarrow> element" where
  "render e this p =
     (if isGuest (MatrixClientPeg_get e) then guest_view
      else if noRoom this then not_joined_view
      else (case timelineSet this of
              Some ts \<Rightarrow> feed_view (roomId p) ts
            | None \<Rightarrow> loading_view))"

text \<open>The texts an element tree shows, left to right.\<close>

fun texts :: "element \<Rightarrow> string list" where
  "texts (Div c es) = concat (map texts es)"
| "texts (Text s) = [s]"
| "texts (TimelinePanel pr) = []"
| "texts Spinner = []"


section \<open>Pagination requests\<close>

datatype direction = Backwards | Forwards

text \<open>
  The promise \<^verbatim>\<open>onPaginationRequest\<close> returns is the promise of the one call it
  delegates to: \<^verbatim>\<open>eventIndex.paginateTimelineWindow(room, timelineWindow, direction,
  limit)\<close> or \<^verbatim>\<open>timelineWindow.paginate(direction, limit)\<close>. The timeline window is
  an argument the component passes on, of any type \<open>'w\<close>.
\<close>

datatype 'w promise =
    PaginateTimelineWindow "room option" 'w direction nat
  | Paginate 'w direction nat

definition onPaginationRequest ::
  "env \<Rightarrow> props \<Rightarrow> 'w \<Rightarrow> direction \<Rightarrow> nat \<Rightarrow> 'w promise \<times> call list" where
  "onPaginationRequest e p timelineWindow direction limit =
     (let client = MatrixClientPeg_get e;
          eventIndex = EventIndexPeg_get e;
          rid = roomId p;
          room = getRoom client rid
      in (if isRoomEncrypted client rid \<and> eventIndex \<noteq> None
          then PaginateTimelineWindow room timelineWindow direction limit
          else Paginate timelineWindow direction limit,
          [Call_getRoom rid, Call_isRoomEncrypted rid]))"

text \<open>
  The view calls the callback once per request. The callback reads the props and the
  two singletons and nothing else, so a series of requests is answered one by one.
\<close>

definition onPaginationRequests ::
  "env \<Rightarrow> props \<Rightarrow> ('w \<times> direction \<times> nat) list \<Rightarrow> 'w promise list" where
  "onPaginationRequests e p reqs =
     map (\<lambda>(w, d, n). fst (onPaginationRequest e p w d n)) reqs"

section \<open>The feed behind a pagination window\<close>

text \<open>
  Modelled from the spec: the SDK's \<^verbatim>\<open>TimelineWindow.paginate\<close> and the index's
  \<^verbatim>\<open>paginateTimelineWindow\<close> are not among the sources. The spec's words:
  a timeline set is "an ordered view of events for a room scoped by a filter"; a
  pagination window is "a cursor-bounded view enabling incremental fetch of
  older/newer history"; \<^verbatim>\<open>paginate(feed, backwards, 20)\<close> "returns up to 20 older
  matching events, appended=true if any exist, else false"; "the window simply
  advances the cursor"; "the live timeline only grows by appending newly received
  matching events". Requests are served one at a time.
\<close>

record event =
  event_id :: nat
  event_type :: string
  contains_url :: bool

text \<open>
  Modelled from the spec: the filter is a "predicate specification (event types,
  content shape)"; the types and the content shape are those of
  \<open>file_filter_definition\<close>.
\<close>

definition matches_file_filter :: "event \<Rightarrow> bool" where
  "matches_file_filter ev = (event_type ev \<in> set [''m.room.message''] \<and> contains_url ev)"

text \<open>
  Modelled from the spec: \<open>fetched\<close> are the events of the feed, oldest first;
  \<open>older\<close> and \<open>newer\<close> are the room's history beyond the two cursors, nearest
  first.
\<close>

record feed =
  fetched :: "event list"
  older :: "event list"
  newer :: "event list"

text \<open>
  Modelled from the spec: the next batch in one direction, up to \<open>n\<close> matching
  events, and the history left beyond the advanced cursor.
\<close>

fun fetch_matching :: "nat \<Rightarrow> event list \<Rightarrow> event list \<times> event list" where
  "fetch_matching 0 xs = ([], xs)"
| "fetch_matching (Suc n) [] = ([], [])"
| "fetch_matching (Suc n) (x # xs) =
     (if matches_file_filter x
      then (case fetch_matching n xs of (batch, rest) \<Rightarrow> (x # batch, rest))
      else fetch_matching (Suc n) xs)"

text \<open>Modelled from the spec: one page, and whether any new events were appended.\<close>

definition advance :: "feed \<Rightarrow> direction \<Rightarrow> nat \<Rightarrow> bool \<times> feed" where
  "advance f d n =
     (case d of
        Backwards \<Rightarrow>
          (case fetch_matching n (older f) of
             (batch, rest) \<Rightarrow> (batch \<noteq> [], f\<lparr>fetched := rev batch @ fetched f, older := rest\<rparr>))
      | Forwards \<Rightarrow>
          (case fetch_matching n (newer f) of
             (batch, rest) \<Rightarrow> (batch \<noteq> [], f\<lparr>fetched := fetched f @ batch, newer := rest\<rparr>)))"

text \<open>
  Modelled from the spec: what the two promises resolve to. The index "merges
  locally-indexed decrypted events with any gap-filling network fetch"; of that the
  model keeps the page it appends.
\<close>

fun resolve :: "feed promise \<Rightarrow> bool \<times> feed" where
  "resolve (PaginateTimelineWindow r w d n) = advance w d n"
| "resolve (Paginate w d n) = advance w d n"

text \<open>
  Modelled from the spec: \<^verbatim>\<open>paginate(feed, direction, limit) -> appended\<close>. The
  request goes through \<open>onPaginationRequest\<close> of the component, and the promise that
  returns is resolved on the feed.
\<close>

definition paginate :: "env \<Rightarrow> props \<Rightarrow> feed \<Rightarrow> direction \<Rightarrow> nat \<Rightarrow> bool \<times> feed" where
  "paginate e p f d n = resolve (fst (onPaginationRequest e p f d n))"

text \<open>
  Modelled from the spec: a live event reaches the feed when it matches the filter;
  it is appended at the live end, which is the end of \<open>fetched\<close> when nothing newer
  is left to fetch.
\<close>

definition deliver :: "feed \<Rightarrow> event \<Rightarrow> feed" where
  "deliver f ev =
     (if \<not> matches_file_filter ev then f
      else if newer f = [] then f\<lparr>fetched := fetched f @ [ev]\<rparr>
      else f\<lparr>newer := newer f @ [ev]\<rparr>)"

text \<open>
  Modelled from the spec: "any sequence of pagination and live-event deliveries" on one
  feed, one step after the other.
\<close>

datatype feed_op = Op_paginate direction nat | Op_deliver event

fun feed_step :: "env \<Rightarrow> props \<Rightarrow> feed \<Rightarrow> feed_op \<Rightarrow> feed" where
  "feed_step e p f (Op_paginate d n) = snd (paginate e p f d n)"
| "feed_step e p f (Op_deliver ev) = deliver f ev"

definition feed_run :: "env \<Rightarrow> props \<Rightarrow> feed \<Rightarrow> feed_op list \<Rightarrow> feed" where
  "feed_run e p f ops = foldl (feed_step e p) f ops"

section \<open>The filters of a session\<close>

text \<open>
  The filter requests among a list of calls, and the definition and identifier of the
  filters handed to \<^verbatim>\<open>getOrCreateFilteredTimelineSet\<close>.
\<close>

fun filter_requests :: "call list \<Rightarrow> (string \<times> matrix_filter) list" where
  "filter_requests [] = []"
| "filter_requests (Call_getOrCreateFilter name flt # cs) = (name, flt) # filter_requests cs"
| "filter_requests (c # cs) = filter_requests cs"

fun resolved_filters :: "call list \<Rightarrow> (json option \<times> filter_id option) list" where
  "resolved_filters [] = []"
| "resolved_filters (Call_getOrCreateFilteredTimelineSet r flt # cs) =
     (filter_definition flt, filterId flt) # resolved_filters cs"
| "resolved_filters (c # cs) = resolved_filters cs"

text \<open>
  Modelled from the spec: \<^verbatim>\<open>client.getOrCreateFilter\<close> of the SDK is not among the
  sources. The spec's words: a filter has "a server-assigned identifier, created once
  per (user, purpose) pair and cached by that pair"; "creation is idempotent and may
  race across concurrent callers resolving to the same server-assigned identifier".
  The store lists the filters created so far: name, filter and identifier. The name
  stands for the pair of user and purpose.
\<close>

type_synonym filter_store = "(string \<times> matrix_filter \<times> filter_id) list"

definition cached_filter :: "filter_store \<Rightarrow> string \<Rightarrow> filter_id option" where
  "cached_filter s name = map_option snd (map_of s name)"

text \<open>Modelled from the spec: an identifier no filter of the store has.\<close>

definition fresh_id :: "filter_store \<Rightarrow> filter_id" where
  "fresh_id s = Suc (foldr max (map (\<lambda>(n, f, i). i) s) 0)"

text \<open>
  Modelled from the spec: creation is idempotent. Creating under a name the store has
  returns the identifier it has; otherwise the filter is stored under a new identifier.
\<close>

definition create_filter ::
  "filter_store \<Rightarrow> string \<Rightarrow> matrix_filter \<Rightarrow> filter_id \<times> filter_store" where
  "create_filter s name flt =
     (case cached_filter s name of
        Some fid \<Rightarrow> (fid, s)
      | None \<Rightarrow> (fresh_id s, s @ [(name, flt, fresh_id s)]))"

text \<open>
  Modelled from the spec: a caller of \<^verbatim>\<open>getOrCreateFilter\<close> is suspended at the
  call ("suspension at each network/storage call (filter creation, ...)"). It has made
  no request (\<open>Idle\<close>), waits for the look-up under the name, has missed and waits
  for the creation, or holds the identifier it resolved to. One step serves one caller:
  the look-up, or the creation. Between the two steps of one caller the other caller
  may be served, so both may miss and both may go on to create.
\<close>

datatype caller =
    Idle
  | Waiting string matrix_filter
  | Creating string matrix_filter
  | Holding filter_id

fun serve :: "filter_store \<Rightarrow> caller \<Rightarrow> filter_store \<times> caller" where
  "serve s (Waiting name flt) =
     (case cached_filter s name of
        Some fid \<Rightarrow> (s, Holding fid)
      | None \<Rightarrow> (s, Creating name flt))"
| "serve s (Creating name flt) =
     (case create_filter s name flt of (fid, s') \<Rightarrow> (s', Holding fid))"
| "serve s c = (s, c)"

text \<open>
  Modelled from the spec: two concurrent callers and a schedule, the list of whose turn
  it is; every interleaving of the callers' steps is a schedule.
\<close>

datatype turn = First | Second

fun race_step ::
  "filter_store \<times> caller \<times> caller \<Rightarrow> turn \<Rightarrow> filter_store \<times> caller \<times> caller" where
  "race_step (s, a, b) First = (case serve s a of (s', a') \<Rightarrow> (s', a', b))"
| "race_step (s, a, b) Second = (case serve s b of (s', b') \<Rightarrow> (s', a, b'))"

definition race ::
  "turn list \<Rightarrow> filter_store \<times> caller \<times> caller \<Rightarrow> filter_store \<times> caller \<times> caller" where
  "race sch st = foldl race_step st sch"

text \<open>
  Modelled from the spec: \<^verbatim>\<open>acquireFeed(roomId)\<close> is \<open>updateTimelineSet\<close> of a
  freshly mounted panel (\<^verbatim>\<open>componentDidMount\<close>). Two acquisitions run
  concurrently: each makes the filter request its code makes (none when the room is
  not in the store), the two requests race on the store under the schedule, and an
  acquisition whose request has resolved goes on with the identifier it was given. An
  acquisition still suspended when the schedule ends has no result yet.
\<close>

definition caller_of :: "(string \<times> matrix_filter) list \<Rightarrow> caller" where
  "caller_of reqs = (case reqs of [] \<Rightarrow> Idle | (name, flt) # rest \<Rightarrow> Waiting name flt)"

definition answering :: "env \<Rightarrow> filter_id \<Rightarrow> env" where
  "answering e fid =
     e\<lparr>MatrixClientPeg_get :=
         (MatrixClientPeg_get e)\<lparr>getOrCreateFilter := (\<lambda>name flt. Inr fid)\<rparr>\<rparr>"

fun resume :: "env \<Rightarrow> caller \<Rightarrow> room_id \<Rightarrow> (file_panel \<times> call list) option" where
  "resume e Idle rid = Some (updateTimelineSet e getInitialState rid)"
| "resume e (Holding fid) rid =
     Some (updateTimelineSet (answering e fid) getInitialState rid)"
| "resume e c rid = None"

definition concurrent_acquireFeed ::
  "env \<Rightarrow> filter_store \<Rightarrow> room_id \<Rightarrow> room_id \<Rightarrow> turn list \<Rightarrow>
   filter_store \<times> (file_panel \<times> call list) option \<times> (file_panel \<times> call list) option" where
  "concurrent_acquireFeed e s rid1 rid2 sch =
     (case race sch
             (s,
              caller_of (filter_requests (snd (updateTimelineSet e getInitialState rid1))),
              caller_of (filter_requests (snd (updateTimelineSet e getInitialState rid2)))) of
        (s', a, b) \<Rightarrow> (s', resume e a rid1, resume e b rid2))"

text \<open>
  What holds at every point of a race of two callers with the request \<open>(name, flt)\<close>
  that started on the store \<open>s\<close>, and how far a caller has come.
\<close>

definition settled :: "filter_store \<Rightarrow> string \<Rightarrow> matrix_filter \<Rightarrow> filter_store \<times> caller \<times> caller \<Rightarrow> bool" where
  "settled s name flt st =
     (case st of (s', a, b) \<Rightarrow>
        (s' = s \<or> s' = snd (create_filter s name flt))
        \<and> (a = Waiting name flt \<or> a = Creating name flt
             \<or> a = Holding (fst (create_filter s name flt)))
        \<and> (b = Waiting name flt \<or> b = Creating name flt
             \<or> b = Holding (fst (create_filter s name flt)))
        \<and> (a = Holding (fst (create_filter s name flt))
             \<or> b = Holding (fst (create_filter s name flt))
            \<longrightarrow> s' = snd (create_filter s name flt)))"

fun rank :: "caller \<Rightarrow> nat" where
  "rank Idle = 2"
| "rank (Waiting name flt) = 0"
| "rank (Creating name flt) = 1"
| "rank (Holding fid) = 2"

section \<open>The events of a timeline\<close>

text \<open>
  Modelled from the spec: the index's \<^verbatim>\<open>populateFileTimeline\<close> and the contents
  of the SDK's timelines are not among the sources. The spec's words: the index is a
  "client-side store of decrypted events"; acquisition is to "request that index to
  pre-populate one page of the live timeline from locally decrypted history before
  returning"; "initial feed population contains only already-decrypted events; no
  plaintext network event bypasses the index when one is present". An event of a
  timeline is tagged with where it came from; the world holds the events of every
  timeline and, per room, the index's decrypted history, newest first.
\<close>

datatype origin = Local_index | Network






section \<open>The entry of the forward dialog\<close>

datatype SendState = CanSend | Sending | Sent | Failed

text \<open>
  The button \<^verbatim>\<open>Entry\<close> renders, from \<^verbatim>\<open>room.maySendMessage()\<close> and the state.
  \<open>sends\<close> tells the two click handlers apart: the one that calls \<^verbatim>\<open>send\<close> and
  the empty one of the tooltip button. The label of the second state ends in an
  ellipsis character in the source.
\<close>

record button =
  kind :: string
  className :: string
  label :: string
  disabled :: bool
  sends :: bool

definition Entry_button :: "bool \<Rightarrow> SendState \<Rightarrow> button" where
  "Entry_button maySendMessage sendState =
     (if maySendMessage then
        (case (if sendState = CanSend then (''Send'', ''mx_ForwardList_canSend'')
               else if sendState = Sending then (''Sending...'', ''mx_ForwardList_sending'')
               else if sendState = Sent then (''Sent'', ''mx_ForwardList_sent'')
               else (''Failed to send'', ''mx_ForwardList_sendFailed'')) of
           (lbl, cls) \<Rightarrow>
             \<lparr>kind = (if sendState = Failed then ''danger_outline'' else ''primary_outline''),
              className = cls,
              label = lbl,
              disabled = (sendState \<noteq> CanSend),
              sends = True\<rparr>)
      else
        \<lparr>kind = ''primary_outline'',
         className = ''mx_ForwardList_canSend'',
         label = ''Send'',
         disabled = True,
         sends = False\<rparr>)"

text \<open>
  One mounted entry: its state, how often \<^verbatim>\<open>send\<close> has been called, and how many
  of those promises are still pending.
\<close>

record entry =
  sendState :: SendState
  send_calls :: nat
  pending :: nat

definition entry_init :: entry where
  "entry_init = \<lparr>sendState = CanSend, send_calls = 0, pending = 0\<rparr>"

text \<open>
  What can happen to an entry: the user clicks the button as last rendered (with the
  value \<^verbatim>\<open>room.maySendMessage()\<close> had then), or a pending \<^verbatim>\<open>send\<close> promise
  resolves or rejects. The button components are not among the sources; \<open>disabled\<close>
  has the meaning of the HTML attribute: a click on a disabled button calls no handler.
\<close>

datatype entry_event = Click bool | Resolved | Rejected

fun entry_step :: "entry \<Rightarrow> entry_event \<Rightarrow> entry" where
  "entry_step s (Click may) =
     (let b = Entry_button may (sendState s)
      in if disabled b \<or> \<not> sends b then s
         else s\<lparr>sendState := Sending, send_calls := Suc (send_calls s), pending := Suc (pending s)\<rparr>)"
| "entry_step s Resolved =
     (if pending s = 0 then s else s\<lparr>sendState := Sent, pending := pending s - 1\<rparr>)"
| "entry_step s Rejected =
     (if pending s = 0 then s else s\<lparr>sendState := Failed, pending := pending s - 1\<rparr>)"

definition entry_run :: "entry \<Rightarrow> entry_event list \<Rightarrow> entry" where
  "entry_run s evs = foldl entry_step s evs"

text \<open>
  The states an entry can be in: not sent yet; sent once and waiting; sent once and
  settled.
\<close>

definition entry_ok :: "entry \<Rightarrow> bool" where
  "entry_ok s =
     (case sendState s of
        CanSend \<Rightarrow> send_calls s = 0 \<and> pending s = 0
      | Sending \<Rightarrow> send_calls s = 1 \<and> pending s = 1
      | Sent \<Rightarrow> send_calls s = 1 \<and> pending s = 0
      | Failed \<Rightarrow> send_calls s = 1 \<and> pending s = 0)"

section \<open>Example sessions\<close>

definition alice_client :: matrix_client where
  "alice_client =
     \<lparr>credentials_userId = ''@alice:example.org'',
      isGuest = False,
      getRoom = (\<lambda>rid. if rid = ''!abc:example.org'' then Some (Room rid) else None),
      isRoomEncrypted = (\<lambda>rid. False),
      getOrCreateFilter = (\<lambda>name flt. Inr 7)\<rparr>"

definition plain_env :: env where
  "plain_env =
     \<lparr>MatrixClientPeg_get = alice_client,
      EventIndexPeg_get = None,
      getOrCreateFilteredTimelineSet = (\<lambda>r flt. Inr (TimelineSet 1)),
      getLiveTimeline = (\<lambda>ts. EventTimeline 1)\<rparr>"

definition guest_env :: env where
  "guest_env = plain_env\<lparr>MatrixClientPeg_get := alice_client\<lparr>isGuest := True\<rparr>\<rparr>"

definition failing_env :: env where
  "failing_env =
     plain_env\<lparr>MatrixClientPeg_get :=
       alice_client\<lparr>getOrCreateFilter := (\<lambda>name flt. Inl (Error ''M_UNKNOWN''))\<rparr>\<rparr>"

definition example_index :: event_index where
  "example_index = \<lparr>populateFileTimeline = (\<lambda>ts tl r n. Inr ())\<rparr>"

definition encrypted_env :: env where
  "encrypted_env =
     plain_env\<lparr>MatrixClientPeg_get := alice_client\<lparr>isRoomEncrypted := (\<lambda>rid. True)\<rparr>,
               EventIndexPeg_get := Some example_index\<rparr>"

definition abc_props :: props where
  "abc_props = \<lparr>roomId = ''!abc:example.org''\<rparr>"

definition xyz_props :: props where
  "xyz_props = \<lparr>roomId = ''!xyz:example.org''\<rparr>"

definition file_event :: "nat \<Rightarrow> event" where
  "file_event i = \<lparr>event_id = i, event_type = ''m.room.message'', contains_url = True\<rparr>"

definition text_event :: "nat \<Rightarrow> event" where
  "text_event i = \<lparr>event_id = i, event_type = ''m.room.message'', contains_url = False\<rparr>"

definition example_feed :: feed where
  "example_feed =
     \<lparr>fetched = [file_event 5, file_event 6],
      older = [file_event 4, text_event 3, file_event 2],
      newer = []\<rparr>"



section \<open>Auxiliary facts\<close>

lemma console_errors_append [simp]:
  "console_errors (xs @ ys) = console_errors xs @ console_errors ys"
  by (induction xs rule: console_errors.induct) simp_all

lemma set_states_append [simp]:
  "set_states (xs @ ys) = set_states xs @ set_states ys"
  by (induction xs rule: set_states.induct) simp_all

lemma filter_requests_append [simp]:
  "filter_requests (xs @ ys) = filter_requests xs @ filter_requests ys"
  by (induction xs rule: filter_requests.induct) simp_all

lemma resolved_filters_append [simp]:
  "resolved_filters (xs @ ys) = resolved_filters xs @ resolved_filters ys"
  by (induction xs rule: resolved_filters.induct) simp_all

lemma fetch_calls:
  "console_errors (snd (fetchFileEventsServer e r)) = []"
  "set_states (snd (fetchFileEventsServer e r)) = []"
  "length (filter_requests (snd (fetchFileEventsServer e r))) = 1"
  by (simp_all add: fetchFileEventsServer_def Let_def split: sum.splits)

lemma fetch_requests:
  "filter_requests (snd (fetchFileEventsServer e r)) =
     [(''FILTER_FILES_'' @ credentials_userId (MatrixClientPeg_get e),
       setDefinition (new_Filter (credentials_userId (MatrixClientPeg_get e)))
         file_filter_definition)]"
  by (simp add: fetchFileEventsServer_def Let_def split: sum.splits)




section \<open>Acquiring the feed\<close>

text \<open>
  C1, as the code has it. When the session's room store has no room for the id,
  \<^verbatim>\<open>updateTimelineSet\<close> makes exactly two calls, the lookup of the room and one
  \<^verbatim>\<open>console.error\<close>: no filter is requested, no timeline set is fetched and the
  index is not called. It sets \<^verbatim>\<open>noRoom\<close> and leaves \<^verbatim>\<open>state.timelineSet\<close> as it
  was (null for a freshly mounted panel). \<^verbatim>\<open>render\<close> then shows the message that
  the user must join the room, provided the session is not a guest session: for a
  guest the check of \<^verbatim>\<open>isGuest()\<close> comes first.
\<close>

theorem not_joined_without_contact:
  assumes "getRoom (MatrixClientPeg_get e) rid = None"
  shows "updateTimelineSet e this rid =
           (this\<lparr>noRoom := True\<rparr>, [Call_getRoom rid, Call_console_error no_room_message None])
       \<and> filter_requests (snd (updateTimelineSet e this rid)) = []
       \<and> resolved_filters (snd (updateTimelineSet e this rid)) = []
       \<and> set_states (snd (updateTimelineSet e this rid)) = []
       \<and> timelineSet (fst (updateTimelineSet e this rid)) = timelineSet this
       \<and> timelineSet (fst (updateTimelineSet e getInitialState rid)) = None
       \<and> (\<not> isGuest (MatrixClientPeg_get e) \<longrightarrow>
            render e (fst (updateTimelineSet e this rid)) p = not_joined_view)"
  using assms by (simp add: updateTimelineSet_def render_def getInitialState_def)

theorem not_joined_without_contact_witness:
  "getRoom (MatrixClientPeg_get plain_env) ''!xyz:example.org'' = None
   \<and> \<not> isGuest (MatrixClientPeg_get plain_env)
   \<and> updateTimelineSet plain_env getInitialState ''!xyz:example.org'' =
        (getInitialState\<lparr>noRoom := True\<rparr>,
         [Call_getRoom ''!xyz:example.org'', Call_console_error no_room_message None])
   \<and> timelineSet (fst (updateTimelineSet plain_env getInitialState ''!xyz:example.org'')) = None
   \<and> render plain_env (fst (updateTimelineSet plain_env getInitialState ''!xyz:example.org''))
        xyz_props = not_joined_view"
proof -
  have h: "getRoom (MatrixClientPeg_get plain_env) ''!xyz:example.org'' = None"
    by (simp add: plain_env_def alice_client_def)
  have g: "\<not> isGuest (MatrixClientPeg_get plain_env)"
    by (simp add: plain_env_def alice_client_def)
  show ?thesis
    using h g not_joined_without_contact [OF h, of getInitialState xyz_props] by blast
qed

text \<open>
  The claim without the proviso fails: a guest who opens the panel of a room that is
  not in the store is shown the message to register, not the message to join.
\<close>

theorem not_joined_guest_counterexample:
  "getRoom (MatrixClientPeg_get guest_env) ''!xyz:example.org'' = None
   \<and> render guest_env (fst (updateTimelineSet guest_env getInitialState ''!xyz:example.org''))
        xyz_props = guest_view
   \<and> guest_view \<noteq> not_joined_view"
  by (simp add: guest_env_def plain_env_def alice_client_def render_def updateTimelineSet_def
      guest_view_def not_joined_view_def)







text \<open>
  C4, as the code has it. When \<^verbatim>\<open>fetchFileEventsServer\<close> throws for a room of the
  store (the filter request is rejected, or fetching the timeline set throws), the
  \<^verbatim>\<open>catch\<close> logs the error once and \<^verbatim>\<open>updateTimelineSet\<close> returns: the
  filter was requested once, the timeline set at most once, nothing is tried again, no
  state is set and \<^verbatim>\<open>state.timelineSet\<close> is unchanged. A panel that had no timeline set then keeps
  rendering the loading indicator (for a session that is not a guest session).
\<close>

theorem acquisition_failure_terminal:
  assumes room: "getRoom (MatrixClientPeg_get e) rid = Some r"
    and name: "name = ''FILTER_FILES_'' @ credentials_userId (MatrixClientPeg_get e)"
    and flt: "flt = \<lparr>filter_userId = credentials_userId (MatrixClientPeg_get e),
                     filter_definition = Some file_filter_definition, filterId = None\<rparr>"
    and failed: "getOrCreateFilter (MatrixClientPeg_get e) name flt = Inl err
               \<or> (\<exists>fid. getOrCreateFilter (MatrixClientPeg_get e) name flt = Inr fid
                     \<and> getOrCreateFilteredTimelineSet e r (flt\<lparr>filterId := Some fid\<rparr>) = Inl err)"
  shows "updateTimelineSet e this rid =
           (this\<lparr>noRoom := False\<rparr>,
            Call_getRoom rid # snd (fetchFileEventsServer e r) @
              [Call_console_error failed_message (Some err)])
       \<and> timelineSet (fst (updateTimelineSet e this rid)) = timelineSet this
       \<and> console_errors (snd (updateTimelineSet e this rid)) = [(failed_message, Some err)]
       \<and> filter_requests (snd (updateTimelineSet e this rid)) = [(name, flt)]
       \<and> length (resolved_filters (snd (updateTimelineSet e this rid))) \<le> 1
       \<and> set_states (snd (updateTimelineSet e this rid)) = []
       \<and> (\<not> isGuest (MatrixClientPeg_get e) \<and> timelineSet this = None \<longrightarrow>
            render e (fst (updateTimelineSet e this rid)) p = loading_view)"
proof -
  have thrown: "fst (fetchFileEventsServer e r) = Inl err"
    using failed name flt
    by (auto simp: fetchFileEventsServer_def Let_def setDefinition_def new_Filter_def)
  then obtain tr where f: "fetchFileEventsServer e r = (Inl err, tr)"
    by (cases "fetchFileEventsServer e r") simp
  have u: "updateTimelineSet e this rid =
             (this\<lparr>noRoom := False\<rparr>,
              Call_getRoom rid # tr @ [Call_console_error failed_message (Some err)])"
    using room f by (simp add: updateTimelineSet_def)
  have c: "console_errors tr = []" "set_states tr = []"
    using fetch_calls [of e r] f by simp_all
  have q: "filter_requests tr = [(name, flt)]"
    using fetch_requests [of e r] f name flt by (simp add: setDefinition_def new_Filter_def)
  have l: "length (resolved_filters tr) \<le> 1"
    using f by (auto simp: fetchFileEventsServer_def Let_def split: sum.splits)
  show ?thesis
    using u f c q l by (simp add: render_def)
qed

theorem acquisition_failure_terminal_witness:
  "getRoom (MatrixClientPeg_get failing_env) ''!abc:example.org''
     = Some (Room ''!abc:example.org'')
   \<and> getOrCreateFilter (MatrixClientPeg_get failing_env) ''FILTER_FILES_@alice:example.org''
        \<lparr>filter_userId = ''@alice:example.org'',
         filter_definition = Some file_filter_definition, filterId = None\<rparr>
       = Inl (Error ''M_UNKNOWN'')
   \<and> \<not> isGuest (MatrixClientPeg_get failing_env)
   \<and> timelineSet (fst (updateTimelineSet failing_env getInitialState ''!abc:example.org''))
       = None
   \<and> console_errors (snd (updateTimelineSet failing_env getInitialState ''!abc:example.org''))
       = [(failed_message, Some (Error ''M_UNKNOWN''))]
   \<and> filter_requests (snd (updateTimelineSet failing_env getInitialState ''!abc:example.org''))
       = [(''FILTER_FILES_@alice:example.org'',
           \<lparr>filter_userId = ''@alice:example.org'',
            filter_definition = Some file_filter_definition, filterId = None\<rparr>)]
   \<and> set_states (snd (updateTimelineSet failing_env getInitialState ''!abc:example.org'')) = []
   \<and> render failing_env (fst (updateTimelineSet failing_env getInitialState ''!abc:example.org''))
        abc_props = loading_view"
proof -
  let ?flt = "\<lparr>filter_userId = ''@alice:example.org'',
               filter_definition = Some file_filter_definition, filterId = None\<rparr>"
  have room: "getRoom (MatrixClientPeg_get failing_env) ''!abc:example.org''
                = Some (Room ''!abc:example.org'')"
    by (simp add: failing_env_def plain_env_def alice_client_def)
  have name: "''FILTER_FILES_@alice:example.org''
                = ''FILTER_FILES_'' @ credentials_userId (MatrixClientPeg_get failing_env)"
    by (simp add: failing_env_def plain_env_def alice_client_def)
  have flt: "?flt = \<lparr>filter_userId = credentials_userId (MatrixClientPeg_get failing_env),
                     filter_definition = Some file_filter_definition, filterId = None\<rparr>"
    by (simp add: failing_env_def plain_env_def alice_client_def)
  have rejected: "getOrCreateFilter (MatrixClientPeg_get failing_env)
                    ''FILTER_FILES_@alice:example.org'' ?flt = Inl (Error ''M_UNKNOWN'')"
    by (simp add: failing_env_def plain_env_def alice_client_def)
  have g: "\<not> isGuest (MatrixClientPeg_get failing_env)"
    by (simp add: failing_env_def plain_env_def alice_client_def)
  have n: "timelineSet getInitialState = None"
    by (simp add: getInitialState_def)
  note t = acquisition_failure_terminal
    [OF room name flt disjI1 [OF rejected], of getInitialState abc_props]
  show ?thesis
    using room rejected g n t by metis
qed

text \<open>
  The claim's last part fails: after a rejected filter request the panel of a joined,
  registered user renders the spinner and no text at all, neither an empty state nor
  an error.
\<close>

theorem acquisition_failure_spinner_counterexample:
  "getRoom (MatrixClientPeg_get failing_env) ''!abc:example.org''
     = Some (Room ''!abc:example.org'')
   \<and> fst (fetchFileEventsServer failing_env (Room ''!abc:example.org''))
       = Inl (Error ''M_UNKNOWN'')
   \<and> render failing_env (fst (updateTimelineSet failing_env getInitialState ''!abc:example.org''))
        abc_props = Div ''mx_FilePanel'' [Spinner]
   \<and> texts (render failing_env
        (fst (updateTimelineSet failing_env getInitialState ''!abc:example.org'')) abc_props)
       = []"
  by (simp add: failing_env_def plain_env_def alice_client_def render_def updateTimelineSet_def
      fetchFileEventsServer_def getInitialState_def loading_view_def Let_def)


section \<open>Rendering\<close>




section \<open>Pagination\<close>

text \<open>
  C2. \<^verbatim>\<open>onPaginationRequest\<close> looks the room up, asks whether it is encrypted, and
  returns the promise of one call: when the room is encrypted and
  \<^verbatim>\<open>EventIndexPeg.get()\<close> is not null, the index's \<^verbatim>\<open>paginateTimelineWindow\<close>
  with the room found, the window, the direction and the limit it was given; otherwise
  the window's own \<^verbatim>\<open>paginate\<close> with the same direction and limit.
\<close>

theorem pagination_delegation:
  "onPaginationRequest e p w d n =
     (if isRoomEncrypted (MatrixClientPeg_get e) (roomId p) \<and> EventIndexPeg_get e \<noteq> None
      then PaginateTimelineWindow (getRoom (MatrixClientPeg_get e) (roomId p)) w d n
      else Paginate w d n,
      [Call_getRoom (roomId p), Call_isRoomEncrypted (roomId p)])"
  by (simp add: onPaginationRequest_def Let_def)

theorem pagination_delegation_witness:
  "fst (onPaginationRequest encrypted_env abc_props example_feed Backwards 20)
     = PaginateTimelineWindow (Some (Room ''!abc:example.org'')) example_feed Backwards 20
   \<and> fst (onPaginationRequest plain_env abc_props example_feed Backwards 20)
       = Paginate example_feed Backwards 20
   \<and> fst (onPaginationRequest (encrypted_env\<lparr>EventIndexPeg_get := None\<rparr>) abc_props
        example_feed Forwards 5) = Paginate example_feed Forwards 5"
  using pagination_delegation [of encrypted_env abc_props example_feed Backwards 20]
    pagination_delegation [of plain_env abc_props example_feed Backwards 20]
    pagination_delegation [of "encrypted_env\<lparr>EventIndexPeg_get := None\<rparr>" abc_props
      example_feed Forwards 5]
  by (simp add: encrypted_env_def plain_env_def alice_client_def abc_props_def)

text \<open>
  C6, as the code has it. The component keeps no record of a pagination in flight and
  makes no check of its own: every request it receives is forwarded, in order, to the
  delegate C2 names, with the window, direction and limit of that request, whether or
  not the same request was made before. Serialising requests is left to the window and
  the index.
\<close>

theorem pagination_requests_all_forwarded:
  "onPaginationRequests e p reqs =
     map (\<lambda>(w, d, n).
            if isRoomEncrypted (MatrixClientPeg_get e) (roomId p) \<and> EventIndexPeg_get e \<noteq> None
            then PaginateTimelineWindow (getRoom (MatrixClientPeg_get e) (roomId p)) w d n
            else Paginate w d n) reqs
   \<and> length (onPaginationRequests e p reqs) = length reqs"
  by (simp add: onPaginationRequests_def onPaginationRequest_def Let_def)

theorem pagination_requests_all_forwarded_witness:
  "onPaginationRequests encrypted_env abc_props
       [(example_feed, Backwards, 20), (example_feed, Backwards, 20)]
     = [PaginateTimelineWindow (Some (Room ''!abc:example.org'')) example_feed Backwards 20,
        PaginateTimelineWindow (Some (Room ''!abc:example.org'')) example_feed Backwards 20]"
  using pagination_requests_all_forwarded [of encrypted_env abc_props
      "[(example_feed, Backwards, 20), (example_feed, Backwards, 20)]"]
  by (simp add: encrypted_env_def plain_env_def alice_client_def abc_props_def)

text \<open>
  The claim fails: the same request made twice on the same window, with nothing
  appended in between, is not rejected; the second request calls
  \<^verbatim>\<open>timelineWindow.paginate\<close> again.
\<close>

theorem repeated_pagination_request_counterexample:
  "onPaginationRequests plain_env abc_props
       [(example_feed, Backwards, 20), (example_feed, Backwards, 20)]
     = [Paginate example_feed Backwards 20, Paginate example_feed Backwards 20]"
  by (simp add: onPaginationRequests_def onPaginationRequest_def Let_def plain_env_def
      alice_client_def)


section \<open>Pages of the feed\<close>

lemma fetch_matching_batch:
  "fst (fetch_matching n xs) = take n (filter matches_file_filter xs)"
  by (induction n xs rule: fetch_matching.induct) (auto split: prod.splits)

lemma fetch_matching_rest:
  "filter matches_file_filter (snd (fetch_matching n xs)) =
     drop n (filter matches_file_filter xs)"
  by (induction n xs rule: fetch_matching.induct) (auto split: prod.splits)

lemma advance_fetched:
  "fetched (snd (advance f d n)) =
     (case d of
        Backwards \<Rightarrow> rev (take n (filter matches_file_filter (older f))) @ fetched f
      | Forwards \<Rightarrow> fetched f @ take n (filter matches_file_filter (newer f)))"
  using fetch_matching_batch [of n "older f"] fetch_matching_batch [of n "newer f"]
  by (cases d) (auto simp: advance_def split: prod.splits)

lemma advance_result:
  "fst (advance f d n) =
     (case d of
        Backwards \<Rightarrow> take n (filter matches_file_filter (older f)) \<noteq> []
      | Forwards \<Rightarrow> take n (filter matches_file_filter (newer f)) \<noteq> [])"
  using fetch_matching_batch [of n "older f"] fetch_matching_batch [of n "newer f"]
  by (cases d) (auto simp: advance_def split: prod.splits)

lemma advance_left:
  "filter matches_file_filter (older (snd (advance f Backwards n)))
     = drop n (filter matches_file_filter (older f))"
  "filter matches_file_filter (newer (snd (advance f Forwards n)))
     = drop n (filter matches_file_filter (newer f))"
  using fetch_matching_rest [of n "older f"] fetch_matching_rest [of n "newer f"]
  by (auto simp: advance_def split: prod.splits)

lemma paginate_advance: "paginate e p f d n = advance f d n"
  by (simp add: paginate_def onPaginationRequest_def Let_def)

text \<open>
  C7, on the feed modelled from the spec. The boolean a pagination returns is true
  exactly when the feed's events changed, and a page adds at most \<open>limit\<close> events.
  Backwards, the page is the nearest \<open>limit\<close> older events that match the filter,
  put before the events already there; for an unencrypted room the request goes to the
  window's own \<^verbatim>\<open>paginate\<close>, and with limit 20 the result is true exactly when an
  older matching event exists. When a page with a positive limit comes back empty,
  asking again returns false and leaves the events as they were.
\<close>

theorem paginate_reports_appended:
  "fst (paginate e p f d n) = (fetched (snd (paginate e p f d n)) \<noteq> fetched f)
   \<and> length (fetched (snd (paginate e p f d n))) \<le> length (fetched f) + n
   \<and> fetched (snd (paginate e p f Backwards n)) =
        rev (take n (filter matches_file_filter (older f))) @ fetched f
   \<and> fetched (snd (paginate e p f Forwards n)) =
        fetched f @ take n (filter matches_file_filter (newer f))
   \<and> fst (paginate e p f Backwards 20) = (filter matches_file_filter (older f) \<noteq> [])
   \<and> (\<not> isRoomEncrypted (MatrixClientPeg_get e) (roomId p) \<longrightarrow>
        fst (onPaginationRequest e p f Backwards 20) = Paginate f Backwards 20)
   \<and> (0 < n \<and> \<not> fst (paginate e p f d n) \<longrightarrow>
        \<not> fst (paginate e p (snd (paginate e p f d n)) d m)
        \<and> fetched (snd (paginate e p (snd (paginate e p f d n)) d m)) = fetched f)"
proof -
  have a: "fst (paginate e p f d n) = (fetched (snd (paginate e p f d n)) \<noteq> fetched f)"
    by (cases d) (simp_all add: paginate_advance advance_fetched advance_result)
  have b: "length (fetched (snd (paginate e p f d n))) \<le> length (fetched f) + n"
    by (cases d) (simp_all add: paginate_advance advance_fetched)
  have c: "fetched (snd (paginate e p f Backwards n)) =
        rev (take n (filter matches_file_filter (older f))) @ fetched f"
    "fetched (snd (paginate e p f Forwards n)) =
        fetched f @ take n (filter matches_file_filter (newer f))"
    by (simp_all add: paginate_advance advance_fetched)
  have d: "fst (paginate e p f Backwards 20) = (filter matches_file_filter (older f) \<noteq> [])"
    by (simp add: paginate_advance advance_result)
  have u: "\<not> isRoomEncrypted (MatrixClientPeg_get e) (roomId p) \<longrightarrow>
        fst (onPaginationRequest e p f Backwards 20) = Paginate f Backwards 20"
    by (simp add: onPaginationRequest_def Let_def)
  have g: "0 < n \<and> \<not> fst (paginate e p f d n) \<longrightarrow>
        \<not> fst (paginate e p (snd (paginate e p f d n)) d m)
        \<and> fetched (snd (paginate e p (snd (paginate e p f d n)) d m)) = fetched f"
    by (cases d) (auto simp: paginate_advance advance_fetched advance_result advance_left)
  show ?thesis using a b c d u g by blast
qed

theorem paginate_reports_appended_witness:
  "\<not> isRoomEncrypted (MatrixClientPeg_get plain_env) (roomId abc_props)
   \<and> fst (onPaginationRequest plain_env abc_props example_feed Backwards 20)
        = Paginate example_feed Backwards 20
   \<and> fst (paginate plain_env abc_props example_feed Backwards 20)
   \<and> fetched (snd (paginate plain_env abc_props example_feed Backwards 20))
        = [file_event 2, file_event 4, file_event 5, file_event 6]
   \<and> (0::nat) < 20
   \<and> \<not> fst (paginate plain_env abc_props example_feed Forwards 20)
   \<and> \<not> fst (paginate plain_env abc_props
               (snd (paginate plain_env abc_props example_feed Forwards 20)) Forwards 20)"
proof -
  have u: "\<not> isRoomEncrypted (MatrixClientPeg_get plain_env) (roomId abc_props)"
    by (simp add: plain_env_def alice_client_def)
  have m: "filter matches_file_filter (older example_feed) = [file_event 4, file_event 2]"
    "filter matches_file_filter (newer example_feed) = []"
    by (simp_all add: example_feed_def matches_file_filter_def file_event_def text_event_def)
  have f: "fetched example_feed = [file_event 5, file_event 6]"
    by (simp add: example_feed_def)
  have n: "\<not> fst (paginate plain_env abc_props example_feed Forwards 20)"
    using paginate_reports_appended [of plain_env abc_props example_feed Forwards 20] m f
    by simp
  show ?thesis
    using u m f n
      paginate_reports_appended [of plain_env abc_props example_feed Backwards 20]
      paginate_reports_appended [of plain_env abc_props example_feed Forwards 20 20]
    by simp
qed

section \<open>The order of the feed\<close>

lemma deliver_fetched:
  "fetched (deliver f ev) =
     (if matches_file_filter ev \<and> newer f = [] then fetched f @ [ev] else fetched f)"
  by (simp add: deliver_def)

lemma feed_step_sublist: "sublist (fetched f) (fetched (feed_step e p f op))"
proof (cases op)
  case (Op_paginate d n)
  then show ?thesis
    by (cases d) (simp_all add: paginate_advance advance_fetched)
next
  case (Op_deliver ev)
  then show ?thesis by (simp add: deliver_fetched)
qed

lemma feed_run_sublist: "sublist (fetched f) (fetched (feed_run e p f ops))"
proof (induction ops arbitrary: f)
  case Nil
  then show ?case by (simp add: feed_run_def)
next
  case (Cons op ops)
  have "sublist (fetched f) (fetched (feed_step e p f op))"
    by (rule feed_step_sublist)
  moreover have "sublist (fetched (feed_step e p f op))
                   (fetched (feed_run e p (feed_step e p f op) ops))"
    by (rule Cons.IH)
  ultimately have "sublist (fetched f) (fetched (feed_run e p (feed_step e p f op) ops))"
    by (rule sublist_order.order_trans)
  then show ?case by (simp add: feed_run_def)
qed

lemma feed_step_matching:
  assumes "list_all matches_file_filter (fetched f)"
  shows "list_all matches_file_filter (fetched (feed_step e p f op))"
proof (cases op)
  case (Op_paginate d n)
  have "list_all matches_file_filter (take n (filter matches_file_filter xs))" for xs
    by (auto simp: list_all_iff dest: in_set_takeD)
  with assms show ?thesis
    using Op_paginate by (cases d) (simp_all add: paginate_advance advance_fetched)
next
  case (Op_deliver ev)
  with assms show ?thesis by (simp add: deliver_fetched)
qed

lemma feed_run_matching:
  "list_all matches_file_filter (fetched f) \<Longrightarrow>
   list_all matches_file_filter (fetched (feed_run e p f ops))"
proof (induction ops arbitrary: f)
  case Nil
  then show ?case by (simp add: feed_run_def)
next
  case (Cons op ops)
  show ?case
    using Cons.IH [OF feed_step_matching [OF Cons.prems, of e p op]]
    by (simp add: feed_run_def)
qed

text \<open>
  C8, on the feed modelled from the spec. After any sequence of paginations and
  deliveries of live events, the events the feed had before are still there, next to
  each other and in the same order, with new events only before and after them; this
  holds from every intermediate feed on. A live event is appended at the end when it
  matches the filter and the feed is at the live end, and changes nothing otherwise; a
  page goes before the events (backwards) or after them (forwards). A feed of matching
  events stays one.
\<close>

theorem feed_order_preserved:
  "(\<exists>pre post. fetched (feed_run e p f ops) = pre @ fetched f @ post)
   \<and> feed_run e p f (ops1 @ ops2) = feed_run e p (feed_run e p f ops1) ops2
   \<and> fetched (feed_step e p f (Op_deliver ev)) =
        (if matches_file_filter ev \<and> newer f = [] then fetched f @ [ev] else fetched f)
   \<and> fetched (feed_step e p f (Op_paginate Backwards n)) =
        rev (take n (filter matches_file_filter (older f))) @ fetched f
   \<and> fetched (feed_step e p f (Op_paginate Forwards n)) =
        fetched f @ take n (filter matches_file_filter (newer f))
   \<and> (list_all matches_file_filter (fetched f) \<longrightarrow>
        list_all matches_file_filter (fetched (feed_run e p f ops)))"
proof -
  have a: "\<exists>pre post. fetched (feed_run e p f ops) = pre @ fetched f @ post"
    using feed_run_sublist [of f e p ops] by (simp add: sublist_def)
  have b: "feed_run e p f (ops1 @ ops2) = feed_run e p (feed_run e p f ops1) ops2"
    by (simp add: feed_run_def)
  show ?thesis
    using a b feed_run_matching [of f e p ops]
    by (simp add: deliver_fetched paginate_advance advance_fetched)
qed

theorem feed_order_preserved_witness:
  "list_all matches_file_filter (fetched example_feed)
   \<and> list_all matches_file_filter (fetched (feed_run plain_env abc_props example_feed
        [Op_paginate Backwards 1, Op_deliver (file_event 7), Op_deliver (text_event 8),
         Op_paginate Backwards 5]))
   \<and> (\<exists>pre post. fetched (feed_run plain_env abc_props example_feed
        [Op_paginate Backwards 1, Op_deliver (file_event 7), Op_deliver (text_event 8),
         Op_paginate Backwards 5]) = pre @ fetched example_feed @ post)"
proof -
  have h: "list_all matches_file_filter (fetched example_feed)"
    by (simp add: example_feed_def matches_file_filter_def file_event_def)
  show ?thesis
    using h feed_order_preserved [of plain_env abc_props example_feed
        "[Op_paginate Backwards 1, Op_deliver (file_event 7), Op_deliver (text_event 8),
          Op_paginate Backwards 5]"]
    by blast
qed


section \<open>One filter for a user\<close>

lemma foldr_max_ge: "i \<in> set xs \<Longrightarrow> i \<le> foldr max xs (0::nat)"
  by (induction xs) auto

lemma fresh_id_new: "(n, f, fresh_id s) \<notin> set s"
proof
  assume "(n, f, fresh_id s) \<in> set s"
  then have "fresh_id s \<in> set (map (\<lambda>(n, f, i). i) s)" by force
  then have "fresh_id s \<le> foldr max (map (\<lambda>(n, f, i). i) s) 0" by (rule foldr_max_ge)
  then show False by (simp add: fresh_id_def)
qed

lemma create_cached:
  "cached_filter (snd (create_filter s name flt)) name = Some (fst (create_filter s name flt))"
  by (auto simp: create_filter_def cached_filter_def map_add_def split: option.splits)

lemma create_idem:
  "create_filter (snd (create_filter s name flt)) name flt' =
     (fst (create_filter s name flt), snd (create_filter s name flt))"
  using create_cached [of s name flt] by (simp add: create_filter_def [of "snd _"])

lemma cached_create:
  "cached_filter s name = Some fid \<Longrightarrow> create_filter s name flt = (fid, s)"
  by (simp add: create_filter_def)

lemma serve_waiting_new:
  "serve (snd (create_filter s name flt)) (Waiting name flt') =
     (snd (create_filter s name flt), Holding (fst (create_filter s name flt)))"
  by (simp add: create_cached)

lemma serve_creating_new:
  "serve (snd (create_filter s name flt)) (Creating name flt') =
     (snd (create_filter s name flt), Holding (fst (create_filter s name flt)))"
  by (simp add: create_idem case_prod_unfold)

lemma serve_creating_old:
  "serve s (Creating name flt) =
     (snd (create_filter s name flt), Holding (fst (create_filter s name flt)))"
  by (cases "create_filter s name flt") simp

lemma serve_waiting_old:
  "serve s (Waiting name flt) = (s, Creating name flt)
   \<or> serve s (Waiting name flt) = (s, Holding (fst (create_filter s name flt)))
      \<and> snd (create_filter s name flt) = s"
  by (cases "cached_filter s name") (simp_all add: cached_create)

lemma serve_settled:
  assumes store: "s' = s \<or> s' = snd (create_filter s name flt)"
    and c: "c = Waiting name flt \<or> c = Creating name flt
            \<or> c = Holding (fst (create_filter s name flt))"
  shows "\<exists>s'' c'. serve s' c = (s'', c')
           \<and> (s'' = s \<or> s'' = snd (create_filter s name flt))
           \<and> (c' = Waiting name flt \<or> c' = Creating name flt
               \<or> c' = Holding (fst (create_filter s name flt)))
           \<and> (c' = Holding (fst (create_filter s name flt)) \<longrightarrow>
                 s'' = snd (create_filter s name flt) \<or> (c = c' \<and> s'' = s'))
           \<and> (s' = snd (create_filter s name flt) \<longrightarrow> s'' = snd (create_filter s name flt))"
proof -
  consider (w_old) "c = Waiting name flt" "s' = s"
    | (w_new) "c = Waiting name flt" "s' = snd (create_filter s name flt)"
    | (c_old) "c = Creating name flt" "s' = s"
    | (c_new) "c = Creating name flt" "s' = snd (create_filter s name flt)"
    | (h) "c = Holding (fst (create_filter s name flt))"
    using store c by blast
  then show ?thesis
  proof cases
    case w_old
    then show ?thesis using serve_waiting_old [of s name flt] by auto
  next
    case w_new
    then show ?thesis using serve_waiting_new [of s name flt flt] by simp
  next
    case c_old
    then show ?thesis using serve_creating_old [of s name flt] by simp
  next
    case c_new
    then show ?thesis using serve_creating_new [of s name flt flt] by simp
  next
    case h
    then show ?thesis using store by auto
  qed
qed

lemma serve_rank: "min 2 (Suc (rank c)) \<le> rank (snd (serve s c))"
  by (cases c) (auto split: option.splits prod.splits)

lemma race_step_settled:
  assumes "settled s name flt st"
  shows "settled s name flt (race_step st t)"
proof -
  obtain s' a b where st: "st = (s', a, b)" by (cases st)
  let ?H = "Holding (fst (create_filter s name flt))"
  let ?s1 = "snd (create_filter s name flt)"
  have store: "s' = s \<or> s' = ?s1"
    and a: "a = Waiting name flt \<or> a = Creating name flt \<or> a = ?H"
    and b: "b = Waiting name flt \<or> b = Creating name flt \<or> b = ?H"
    and held: "a = ?H \<or> b = ?H \<longrightarrow> s' = ?s1"
    using assms st by (simp_all add: settled_def)
  show ?thesis
  proof (cases t)
    case First
    obtain s'' a' where sv: "serve s' a = (s'', a')"
      and s'': "s'' = s \<or> s'' = ?s1"
      and a': "a' = Waiting name flt \<or> a' = Creating name flt \<or> a' = ?H"
      and h1: "a' = ?H \<longrightarrow> s'' = ?s1 \<or> (a = a' \<and> s'' = s')"
      and h2: "s' = ?s1 \<longrightarrow> s'' = ?s1"
      using serve_settled [OF store a] by blast
    have "a' = ?H \<or> b = ?H \<longrightarrow> s'' = ?s1"
      using h1 h2 held by blast
    then show ?thesis
      using First st sv s'' a' b by (simp add: settled_def)
  next
    case Second
    obtain s'' b' where sv: "serve s' b = (s'', b')"
      and s'': "s'' = s \<or> s'' = ?s1"
      and b': "b' = Waiting name flt \<or> b' = Creating name flt \<or> b' = ?H"
      and h1: "b' = ?H \<longrightarrow> s'' = ?s1 \<or> (b = b' \<and> s'' = s')"
      and h2: "s' = ?s1 \<longrightarrow> s'' = ?s1"
      using serve_settled [OF store b] by blast
    have "a = ?H \<or> b' = ?H \<longrightarrow> s'' = ?s1"
      using h1 h2 held by blast
    then show ?thesis
      using Second st sv s'' a b' by (simp add: settled_def)
  qed
qed

lemma race_settled:
  "settled s name flt st \<Longrightarrow> settled s name flt (race sch st)"
proof (induction sch arbitrary: st)
  case Nil
  then show ?case by (simp add: race_def)
next
  case (Cons t sch)
  have "race (t # sch) st = race sch (race_step st t)"
    by (simp add: race_def)
  then show ?case
    using Cons.IH [OF race_step_settled [OF Cons.prems, of t]] by simp
qed

lemma race_rank_first:
  "min 2 (rank a + count_list sch First) \<le> rank (fst (snd (race sch (s, a, b))))"
proof (induction sch arbitrary: s a b)
  case Nil
  then show ?case by (simp add: race_def)
next
  case (Cons t sch)
  show ?case
  proof (cases t)
    case First
    obtain s' a' where sv: "serve s a = (s', a')" by (cases "serve s a")
    have r: "min 2 (Suc (rank a)) \<le> rank a'"
      using serve_rank [of a s] sv by simp
    have "race (t # sch) (s, a, b) = race sch (s', a', b)"
      using First sv by (simp add: race_def)
    then show ?thesis
      using Cons.IH [of a' s' b] r First by simp
  next
    case Second
    obtain s' b' where sv: "serve s b = (s', b')" by (cases "serve s b")
    have "race (t # sch) (s, a, b) = race sch (s', a, b')"
      using Second sv by (simp add: race_def)
    then show ?thesis
      using Cons.IH [of a s' b'] Second by simp
  qed
qed

lemma race_rank_second:
  "min 2 (rank b + count_list sch Second) \<le> rank (snd (snd (race sch (s, a, b))))"
proof (induction sch arbitrary: s a b)
  case Nil
  then show ?case by (simp add: race_def)
next
  case (Cons t sch)
  show ?case
  proof (cases t)
    case First
    obtain s' a' where sv: "serve s a = (s', a')" by (cases "serve s a")
    have "race (t # sch) (s, a, b) = race sch (s', a', b)"
      using First sv by (simp add: race_def)
    then show ?thesis
      using Cons.IH [of b s' a'] First by simp
  next
    case Second
    obtain s' b' where sv: "serve s b = (s', b')" by (cases "serve s b")
    have r: "min 2 (Suc (rank b)) \<le> rank b'"
      using serve_rank [of b s] sv by simp
    have "race (t # sch) (s, a, b) = race sch (s', a, b')"
      using Second sv by (simp add: race_def)
    then show ?thesis
      using Cons.IH [of b' s' a] r Second by simp
  qed
qed

lemma race_resolves:
  assumes "2 \<le> count_list sch First" and "2 \<le> count_list sch Second"
  shows "\<exists>s'. race sch (s, Waiting name flt, Waiting name flt) =
               (s', Holding (fst (create_filter s name flt)),
                    Holding (fst (create_filter s name flt)))
             \<and> s' = snd (create_filter s name flt)"
proof -
  obtain s' a b where r: "race sch (s, Waiting name flt, Waiting name flt) = (s', a, b)"
    by (cases "race sch (s, Waiting name flt, Waiting name flt)")
  have "settled s name flt (s, Waiting name flt, Waiting name flt)"
    by (simp add: settled_def)
  then have inv: "settled s name flt (s', a, b)"
    using race_settled [of s name flt _ sch] r by metis
  have ra: "2 \<le> rank a"
    using race_rank_first [of "Waiting name flt" sch s "Waiting name flt"] r assms(1) by simp
  have rb: "2 \<le> rank b"
    using race_rank_second [of "Waiting name flt" sch s "Waiting name flt"] r assms(2) by simp
  have "a = Holding (fst (create_filter s name flt))"
    using inv ra by (auto simp: settled_def)
  moreover have "b = Holding (fst (create_filter s name flt))"
    using inv rb by (auto simp: settled_def)
  ultimately show ?thesis
    using r inv by (simp add: settled_def)
qed



lemma update_requests:
  assumes "getRoom (MatrixClientPeg_get e) rid = Some r"
  shows "filter_requests (snd (updateTimelineSet e this rid)) =
           [(''FILTER_FILES_'' @ credentials_userId (MatrixClientPeg_get e),
             \<lparr>filter_userId = credentials_userId (MatrixClientPeg_get e),
              filter_definition = Some file_filter_definition, filterId = None\<rparr>)]"
  using assms
  by (simp add: updateTimelineSet_def fetchFileEventsServer_def Let_def setDefinition_def
      new_Filter_def split: sum.splits option.splits bool.splits prod.splits)

lemma answering_resolved:
  assumes "getRoom (MatrixClientPeg_get e) rid = Some r"
  shows "filter_requests (snd (updateTimelineSet (answering e fid) this rid)) =
           [(''FILTER_FILES_'' @ credentials_userId (MatrixClientPeg_get e),
             \<lparr>filter_userId = credentials_userId (MatrixClientPeg_get e),
              filter_definition = Some file_filter_definition, filterId = None\<rparr>)]"
    and "resolved_filters (snd (updateTimelineSet (answering e fid) this rid)) =
           [(Some file_filter_definition, Some fid)]"
  using assms
  by (simp_all add: answering_def updateTimelineSet_def fetchFileEventsServer_def Let_def
      setDefinition_def new_Filter_def split: sum.splits option.splits bool.splits prod.splits)

text \<open>
  C5. On the code: the filter request of \<^verbatim>\<open>fetchFileEventsServer\<close> has the name
  \<^verbatim>\<open>FILTER_FILES_\<close> followed by the user id and a filter with the fixed definition,
  so two sessions of one user, for any rooms, make the same request. On the filter
  store modelled from the spec: two concurrent acquisitions by one session, for any two
  rooms of the store and under every schedule that lets both requests finish, also the
  one where both miss the look-up before either creates, resolve to the same
  identifier and hand \<^verbatim>\<open>getOrCreateFilteredTimelineSet\<close> the same definition with
  it. The store holds a filter with that identifier under the name; it is the store
  from before, or that store with one filter more, the requested one under an
  identifier no other filter has. When the filter the store held under the name
  before, if any, was a file filter, so is the one resolved to.
\<close>

theorem one_filter_per_user:
  assumes j1: "getRoom (MatrixClientPeg_get e) rid1 = Some r1"
    and j2: "getRoom (MatrixClientPeg_get e) rid2 = Some r2"
    and c1: "2 \<le> count_list sch First"
    and c2: "2 \<le> count_list sch Second"
    and name: "name = ''FILTER_FILES_'' @ credentials_userId (MatrixClientPeg_get e)"
    and flt: "flt = \<lparr>filter_userId = credentials_userId (MatrixClientPeg_get e),
                     filter_definition = Some file_filter_definition, filterId = None\<rparr>"
  shows "(credentials_userId (MatrixClientPeg_get e') = credentials_userId (MatrixClientPeg_get e)
            \<longrightarrow> filter_requests (snd (fetchFileEventsServer e' r')) =
                filter_requests (snd (fetchFileEventsServer e r1)))
       \<and> filter_requests (snd (fetchFileEventsServer e r1)) = [(name, flt)]
       \<and> (\<exists>s' this1 tr1 this2 tr2 fid flt0.
             concurrent_acquireFeed e s rid1 rid2 sch = (s', Some (this1, tr1), Some (this2, tr2))
             \<and> filter_requests tr1 = [(name, flt)]
             \<and> filter_requests tr2 = [(name, flt)]
             \<and> resolved_filters tr1 = [(Some file_filter_definition, Some fid)]
             \<and> resolved_filters tr2 = [(Some file_filter_definition, Some fid)]
             \<and> map_of s' name = Some (flt0, fid)
             \<and> (s' = s \<or> s' = s @ [(name, flt, fid)] \<and> fid \<notin> set (map (\<lambda>(n, f, i). i) s))
             \<and> ((\<forall>f i. map_of s name = Some (f, i) \<longrightarrow>
                     filter_definition f = Some file_filter_definition)
                  \<longrightarrow> filter_definition flt0 = Some file_filter_definition))"
proof -
  let ?fid = "fst (create_filter s name flt)"
  let ?s1 = "snd (create_filter s name flt)"
  have a: "credentials_userId (MatrixClientPeg_get e') = credentials_userId (MatrixClientPeg_get e)
            \<longrightarrow> filter_requests (snd (fetchFileEventsServer e' r')) =
                filter_requests (snd (fetchFileEventsServer e r1))"
    by (simp add: fetch_requests)
  have b: "filter_requests (snd (fetchFileEventsServer e r1)) = [(name, flt)]"
    using name flt by (simp add: fetch_requests setDefinition_def new_Filter_def)
  have w1: "caller_of (filter_requests (snd (updateTimelineSet e getInitialState rid1)))
              = Waiting name flt"
    using update_requests [OF j1] name flt by (simp add: caller_of_def)
  have w2: "caller_of (filter_requests (snd (updateTimelineSet e getInitialState rid2)))
              = Waiting name flt"
    using update_requests [OF j2] name flt by (simp add: caller_of_def)
  obtain s' where r: "race sch (s, Waiting name flt, Waiting name flt)
                        = (s', Holding ?fid, Holding ?fid)"
      and st: "s' = ?s1"
    using race_resolves [OF c1 c2, of s name flt] by blast
  have run: "concurrent_acquireFeed e s rid1 rid2 sch =
               (s', Some (updateTimelineSet (answering e ?fid) getInitialState rid1),
                    Some (updateTimelineSet (answering e ?fid) getInitialState rid2))"
    using w1 w2 r by (simp add: concurrent_acquireFeed_def)
  have held: "\<exists>flt0. map_of s' name = Some (flt0, ?fid)
                \<and> (s' = s \<or> s' = s @ [(name, flt, ?fid)] \<and> ?fid \<notin> set (map (\<lambda>(n, f, i). i) s))
                \<and> ((\<forall>f i. map_of s name = Some (f, i) \<longrightarrow>
                       filter_definition f = Some file_filter_definition)
                    \<longrightarrow> filter_definition flt0 = Some file_filter_definition)"
  proof (cases "map_of s name")
    case None
    then have cr: "create_filter s name flt = (fresh_id s, s @ [(name, flt, fresh_id s)])"
      by (simp add: create_filter_def cached_filter_def)
    have new: "fresh_id s \<notin> set (map (\<lambda>(n, f, i). i) s)"
      using fresh_id_new [of _ _ s] by force
    show ?thesis
      using st cr new None flt by (simp add: map_add_def)
  next
    case (Some p)
    obtain f i where p: "p = (f, i)" by (cases p)
    then have cr: "create_filter s name flt = (i, s)"
      using Some by (simp add: create_filter_def cached_filter_def)
    show ?thesis
      using st cr Some p by simp
  qed
  then obtain flt0 where h: "map_of s' name = Some (flt0, ?fid)"
      "s' = s \<or> s' = s @ [(name, flt, ?fid)] \<and> ?fid \<notin> set (map (\<lambda>(n, f, i). i) s)"
      "(\<forall>f i. map_of s name = Some (f, i) \<longrightarrow>
            filter_definition f = Some file_filter_definition)
         \<longrightarrow> filter_definition flt0 = Some file_filter_definition"
    by blast
  have q: "filter_requests (snd (updateTimelineSet (answering e ?fid) getInitialState rid1))
             = [(name, flt)]"
    "filter_requests (snd (updateTimelineSet (answering e ?fid) getInitialState rid2))
             = [(name, flt)]"
    using answering_resolved(1) [OF j1] answering_resolved(1) [OF j2] name flt by simp_all
  have c: "\<exists>s' this1 tr1 this2 tr2 fid flt0.
             concurrent_acquireFeed e s rid1 rid2 sch = (s', Some (this1, tr1), Some (this2, tr2))
             \<and> filter_requests tr1 = [(name, flt)]
             \<and> filter_requests tr2 = [(name, flt)]
             \<and> resolved_filters tr1 = [(Some file_filter_definition, Some fid)]
             \<and> resolved_filters tr2 = [(Some file_filter_definition, Some fid)]
             \<and> map_of s' name = Some (flt0, fid)
             \<and> (s' = s \<or> s' = s @ [(name, flt, fid)] \<and> fid \<notin> set (map (\<lambda>(n, f, i). i) s))
             \<and> ((\<forall>f i. map_of s name = Some (f, i) \<longrightarrow>
                     filter_definition f = Some file_filter_definition)
                  \<longrightarrow> filter_definition flt0 = Some file_filter_definition)"
    apply (rule exI [of _ s'])
    apply (rule exI [of _ "fst (updateTimelineSet (answering e ?fid) getInitialState rid1)"])
    apply (rule exI [of _ "snd (updateTimelineSet (answering e ?fid) getInitialState rid1)"])
    apply (rule exI [of _ "fst (updateTimelineSet (answering e ?fid) getInitialState rid2)"])
    apply (rule exI [of _ "snd (updateTimelineSet (answering e ?fid) getInitialState rid2)"])
    apply (rule exI [of _ ?fid])
    apply (rule exI [of _ flt0])
    using run q h answering_resolved(2) [OF j1, of ?fid getInitialState]
      answering_resolved(2) [OF j2, of ?fid getInitialState]
    apply simp
    done
  show ?thesis using a b c by blast
qed


theorem one_filter_per_user_witness:
  "getRoom (MatrixClientPeg_get plain_env) ''!abc:example.org'' = Some (Room ''!abc:example.org'')
   \<and> 2 \<le> count_list [First, Second, First, Second] First
   \<and> 2 \<le> count_list [First, Second, First, Second] Second
   \<and> (\<exists>s' this1 tr1 this2 tr2 fid.
         concurrent_acquireFeed plain_env [] ''!abc:example.org'' ''!abc:example.org''
             [First, Second, First, Second]
           = (s', Some (this1, tr1), Some (this2, tr2))
         \<and> resolved_filters tr1 = [(Some file_filter_definition, Some fid)]
         \<and> resolved_filters tr2 = [(Some file_filter_definition, Some fid)]
         \<and> s' = [(''FILTER_FILES_@alice:example.org'',
                   \<lparr>filter_userId = ''@alice:example.org'',
                    filter_definition = Some file_filter_definition, filterId = None\<rparr>,
                   fid)])"
proof -
  let ?name = "''FILTER_FILES_@alice:example.org''"
  let ?flt = "\<lparr>filter_userId = ''@alice:example.org'',
               filter_definition = Some file_filter_definition, filterId = None\<rparr>"
  have j: "getRoom (MatrixClientPeg_get plain_env) ''!abc:example.org''
             = Some (Room ''!abc:example.org'')"
    by (simp add: plain_env_def alice_client_def)
  have c1: "2 \<le> count_list [First, Second, First, Second] First" by simp
  have c2: "2 \<le> count_list [First, Second, First, Second] Second" by simp
  have name: "?name = ''FILTER_FILES_'' @ credentials_userId (MatrixClientPeg_get plain_env)"
    by (simp add: plain_env_def alice_client_def)
  have flt: "?flt = \<lparr>filter_userId = credentials_userId (MatrixClientPeg_get plain_env),
                     filter_definition = Some file_filter_definition, filterId = None\<rparr>"
    by (simp add: plain_env_def alice_client_def)
  note t = one_filter_per_user [OF j j c1 c2 name flt, of plain_env "Room ''!abc:example.org''" "[]"]
  from t [THEN conjunct2, THEN conjunct2]
  obtain s' this1 tr1 this2 tr2 fid flt0 where
    run: "concurrent_acquireFeed plain_env [] ''!abc:example.org'' ''!abc:example.org''
             [First, Second, First, Second] = (s', Some (this1, tr1), Some (this2, tr2))"
    and r1: "resolved_filters tr1 = [(Some file_filter_definition, Some fid)]"
    and r2: "resolved_filters tr2 = [(Some file_filter_definition, Some fid)]"
    and held: "map_of s' ?name = Some (flt0, fid)"
    and grown: "s' = [] \<or> s' = [] @ [(?name, ?flt, fid)]
                  \<and> fid \<notin> set (map (\<lambda>(n::string, f::matrix_filter, i::filter_id). i) [])"
    by (elim exE conjE) (rule that)
  have "s' = [(?name, ?flt, fid)]"
    using held grown by auto
  then show ?thesis
    using j c1 c2 run r1 r2 by blast
qed

section \<open>Forwarding from one entry\<close>

lemma entry_step_ok: "entry_ok s \<Longrightarrow> entry_ok (entry_step s ev)"
  by (cases ev; cases "sendState s")
    (auto simp: entry_ok_def Entry_button_def Let_def)

lemma entry_run_ok: "entry_ok s \<Longrightarrow> entry_ok (entry_run s evs)"
proof (induction evs arbitrary: s)
  case Nil
  then show ?case by (simp add: entry_run_def)
next
  case (Cons ev evs)
  have "entry_run s (ev # evs) = entry_run (entry_step s ev) evs"
    by (simp add: entry_run_def)
  then show ?case
    using Cons.IH [OF entry_step_ok [OF Cons.prems, of ev]] by simp
qed

lemma entry_step_not_back:
  "sendState s \<noteq> CanSend \<Longrightarrow> sendState (entry_step s ev) \<noteq> CanSend"
  by (cases ev) (auto simp: Entry_button_def Let_def)

text \<open>
  C10. Whatever happens to a mounted entry, \<^verbatim>\<open>send\<close> is called at most once, and
  the state is \<open>CanSend\<close> exactly as long as it has not been called. The button is
  enabled only when the user may post and the state is \<open>CanSend\<close>. No event takes a
  state other than \<open>CanSend\<close> back to it. A click in the first state calls
  \<^verbatim>\<open>send\<close> and moves to \<open>Sending\<close>; from there the promise moves the state to
  \<open>Sent\<close> when it resolves and to \<open>Failed\<close> when it rejects.
\<close>

theorem entry_sends_at_most_once:
  "send_calls (entry_run entry_init evs) \<le> 1
   \<and> (sendState (entry_run entry_init evs) = CanSend)
       = (send_calls (entry_run entry_init evs) = 0)
   \<and> disabled (Entry_button may st) = (\<not> (may \<and> st = CanSend))
   \<and> (sendState s \<noteq> CanSend \<longrightarrow> sendState (entry_step s ev) \<noteq> CanSend)
   \<and> entry_step entry_init (Click True) = \<lparr>sendState = Sending, send_calls = 1, pending = 1\<rparr>
   \<and> entry_step \<lparr>sendState = Sending, send_calls = 1, pending = 1\<rparr> Resolved
        = \<lparr>sendState = Sent, send_calls = 1, pending = 0\<rparr>
   \<and> entry_step \<lparr>sendState = Sending, send_calls = 1, pending = 1\<rparr> Rejected
        = \<lparr>sendState = Failed, send_calls = 1, pending = 0\<rparr>"
proof -
  have init: "entry_ok entry_init"
    by (simp add: entry_ok_def entry_init_def)
  have a: "send_calls (entry_run entry_init evs) \<le> 1
      \<and> (sendState (entry_run entry_init evs) = CanSend)
          = (send_calls (entry_run entry_init evs) = 0)"
    using entry_run_ok [OF init, of evs]
    by (cases "sendState (entry_run entry_init evs)") (simp_all add: entry_ok_def)
  have b: "disabled (Entry_button may st) = (\<not> (may \<and> st = CanSend))"
    by (simp add: Entry_button_def)
  have c: "sendState s \<noteq> CanSend \<longrightarrow> sendState (entry_step s ev) \<noteq> CanSend"
    using entry_step_not_back by blast
  have d: "entry_step entry_init (Click True)
             = \<lparr>sendState = Sending, send_calls = 1, pending = 1\<rparr>"
    by (simp add: entry_init_def Entry_button_def)
  show ?thesis using a b c d by simp
qed

theorem entry_sends_at_most_once_witness:
  "send_calls (entry_run entry_init [Click True, Click True, Rejected, Click True, Resolved]) \<le> 1
   \<and> sendState (entry_run entry_init [Click True, Click True, Rejected, Click True, Resolved])
       = Failed
   \<and> sendState (entry_step \<lparr>sendState = Failed, send_calls = 1, pending = 0\<rparr> (Click True))
       \<noteq> CanSend"
proof -
  have f: "sendState \<lparr>sendState = Failed, send_calls = 1, pending = 0\<rparr> \<noteq> CanSend" by simp
  have r: "sendState (entry_run entry_init [Click True, Click True, Rejected, Click True, Resolved])
             = Failed"
    by (simp add: entry_run_def entry_init_def Entry_button_def)
  show ?thesis
    using f r entry_sends_at_most_once
      [of "[Click True, Click True, Rejected, Click True, Resolved]" True CanSend
          "\<lparr>sendState = Failed, send_calls = 1, pending = 0\<rparr>" "Click True"]
    by blast
qed

end
